theory Spec2Isabelle
  imports Complex_Main
begin

section \<open>Cosmic Recurrence Law: the verification script, embedded\<close>

text \<open>
  The script \<^verbatim>\<open>cosmic_recurrence_law.py\<close> evolves a probability-like vector under a
  fixed matrix, renormalising after every step, and reports the first step at which the
  vector is back within \<open>epsilon\<close> of its start.

  Numbers: a finite NumPy \<^verbatim>\<open>float64\<close> is modelled as a \<open>real\<close>. Rounding is not
  modelled; overflow is, where \<open>normalize\<close> sums its input. A one-dimensional array is a \<open>real list\<close>, a two-dimensional array the list of its
  rows. A matrix with no rows has no recorded column count. The counts \<^verbatim>\<open>dim\<close>
  (written \<open>dimension\<close> below) and \<^verbatim>\<open>steps\<close> are natural numbers.
\<close>

subsection \<open>Errors\<close>

text \<open>
  The exceptions the script can meet: \<^verbatim>\<open>distances[-1]\<close> on an empty list raises
  IndexError; NumPy raises ValueError when the shapes of the operands of \<^verbatim>\<open>@\<close> or of
  \<^verbatim>\<open>-\<close> do not fit.
\<close>

datatype py_error = IndexError | ValueError

subsection \<open>normalize\<close>

text \<open>The lower bound \<^verbatim>\<open>1e-15\<close> passed to \<^verbatim>\<open>np.clip\<close>.\<close>

definition clip_floor :: real where
  "clip_floor = 1 / 10 ^ 15"

text \<open>\<^verbatim>\<open>np.clip(v, lo, None)\<close>: every entry below \<open>lo\<close> is raised to \<open>lo\<close>.\<close>

definition np_clip :: "real list \<Rightarrow> real \<Rightarrow> real list" where
  "np_clip v lo = map (max lo) v"

text \<open>
  The float64 range. A real number rounds to a finite float64 exactly when it lies below
  \<open>2^1024 - 2^970\<close> in absolute value (round to nearest, ties to even); from there on
  it rounds to infinity. \<open>big_float\<close> is a finite float64 in the upper half of the range.
\<close>

definition float64_overflow :: real where
  "float64_overflow = 2 ^ 1024 - 2 ^ 970"


text \<open>
  \<^verbatim>\<open>np.sum\<close> of a vector of positive entries, as \<open>normalize\<close> calls it: the sum, or
  infinity when the sum leaves the float64 range.
\<close>

datatype np_float = Fin real | PosInf

definition np_sum :: "real list \<Rightarrow> np_float" where
  "np_sum v = (if sum_list v < float64_overflow then Fin (sum_list v) else PosInf)"

text \<open>
  \<^verbatim>\<open>
  def normalize(v):
      v = np.clip(v, 1e-15, None)
      return v / np.sum(v)
  \<close>
  NumPy divides entry by entry and raises nothing. On the empty array the sum is 0 and
  no entry is divided; a finite entry divided by infinity is \<open>0.0\<close>.
\<close>

definition normalize_f64 :: "real list \<Rightarrow> real list" where
  "normalize_f64 v =
     (let c = np_clip v clip_floor
      in case np_sum c of
           Fin s \<Rightarrow> map (\<lambda>x. x / s) c
         | PosInf \<Rightarrow> map (\<lambda>x. 0) c)"

text \<open>
  The same function short of overflow, in exact arithmetic: \<open>normalize_f64\<close> computes
  it whenever the sum of the clamped entries stays in the float64 range (lemma
  \<open>normalize_f64_exact\<close>). The driver is modelled with it: under the library's contract
  every vector the driver normalises has entries of at most 1, so that the sum is at most
  \<^verbatim>\<open>dim\<close> (lemma \<open>evolve_state_no_overflow\<close>).
\<close>

definition normalize_vec :: "real list \<Rightarrow> real list" where
  "normalize_vec v = (let c = np_clip v clip_floor in map (\<lambda>x. x / sum_list c) c)"

subsection \<open>The numeric library\<close>

text \<open>
  The script draws its random numbers from \<^verbatim>\<open>np.random.default_rng(42)\<close> and
  orthonormalises with \<^verbatim>\<open>np.linalg.qr\<close>. NumPy is not part of the repository, so the
  four library functions the script calls are a parameter of the model: a generator state
  of type \<open>'g\<close>, created from a seed and threaded through the two draws, and the QR
  factorisation, which returns the pair \<open>(Q, R)\<close>.
\<close>

record 'g numlib =
  default_rng :: "nat \<Rightarrow> 'g"
  rng_random :: "'g \<Rightarrow> nat \<Rightarrow> real list \<times> 'g"
  rng_standard_normal :: "'g \<Rightarrow> nat \<times> nat \<Rightarrow> real list list \<times> 'g"
  linalg_qr :: "real list list \<Rightarrow> real list list \<times> real list list"

subsection \<open>evolve_state\<close>

definition dot :: "real list \<Rightarrow> real list \<Rightarrow> real" where
  "dot a b = sum_list (map2 (*) a b)"

text \<open>
  \<^verbatim>\<open>A @ x\<close> for a two-dimensional \<open>A\<close> and a one-dimensional \<open>x\<close>: one dot product per
  row; NumPy raises ValueError unless every row is as long as \<open>x\<close>.
\<close>

definition matmul_vec :: "real list list \<Rightarrow> real list \<Rightarrow> py_error + real list" where
  "matmul_vec A x =
     (if \<forall>row \<in> set A. length row = length x
      then Inr (map (\<lambda>row. dot row x) A)
      else Inl ValueError)"

text \<open>
  \<^verbatim>\<open>
  def evolve_state(state, transform):
      new = transform @ state
      return normalize(new)
  \<close>
\<close>

definition evolve_state :: "real list \<Rightarrow> real list list \<Rightarrow> py_error + real list" where
  "evolve_state state transform =
     (case matmul_vec transform state of
        Inl e \<Rightarrow> Inl e
      | Inr new \<Rightarrow> Inr (normalize_vec new))"

subsection \<open>recurrence_simulation\<close>

text \<open>
  \<^verbatim>\<open>a - b\<close> on one-dimensional arrays: entry by entry when the lengths agree, an array
  of length 1 is broadcast against the other, anything else raises ValueError.
\<close>

definition np_subtract :: "real list \<Rightarrow> real list \<Rightarrow> py_error + real list" where
  "np_subtract a b =
     (if length a = length b then Inr (map2 (-) a b)
      else if length a = 1 then Inr (map (\<lambda>y. hd a - y) b)
      else if length b = 1 then Inr (map (\<lambda>x. x - hd b) a)
      else Inl ValueError)"

text \<open>\<^verbatim>\<open>np.linalg.norm\<close> of a one-dimensional array: the Euclidean norm.\<close>

definition linalg_norm :: "real list \<Rightarrow> real" where
  "linalg_norm x = sqrt (sum_list (map (\<lambda>a. a * a) x))"

text \<open>What the driver returns: \<^verbatim>\<open>(step_of_return, final_distance, history_of_distances)\<close>.\<close>

type_synonym result = "nat option \<times> real \<times> real list"

text \<open>
  The loop of the driver, over the values \<open>ts\<close> that \<open>t\<close> still has to take
  (\<^verbatim>\<open>range(1, steps + 1)\<close> at the start), with the current \<open>state\<close> and the
  \<open>distances\<close> appended so far:
  \<^verbatim>\<open>
    for t in range(1, steps + 1):
        state = evolve_state(state, Q)
        dist = np.linalg.norm(state - s0)
        distances.append(dist)
        if dist < epsilon:
            return t, dist, distances
    return None, distances[-1], distances
  \<close>
  The \<^verbatim>\<open>print\<close> calls have no effect on the result and are left out.
\<close>

fun simulation_loop ::
  "real list list \<Rightarrow> real list \<Rightarrow> real \<Rightarrow> nat list \<Rightarrow> real list \<Rightarrow> real list
    \<Rightarrow> py_error + result" where
  "simulation_loop Q s0 epsilon [] state distances =
     (case distances of
        [] \<Rightarrow> Inl IndexError
      | _ # _ \<Rightarrow> Inr (None, last distances, distances))"
| "simulation_loop Q s0 epsilon (t # ts) state distances =
     (case evolve_state state Q of
        Inl e \<Rightarrow> Inl e
      | Inr state' \<Rightarrow>
          (case np_subtract state' s0 of
             Inl e \<Rightarrow> Inl e
           | Inr diff \<Rightarrow>
               (let dist = linalg_norm diff;
                    distances' = distances @ [dist]
                in if dist < epsilon then Inr (Some t, dist, distances')
                   else simulation_loop Q s0 epsilon ts state' distances')))"

text \<open>
  The two values the driver computes before the loop (lines 36 to 43 of the script):
  \<^verbatim>\<open>
    rng = np.random.default_rng(42)
    s0 = rng.random(dim)
    s0 = normalize(s0)
    M = rng.standard_normal((dim, dim))
    Q, _ = np.linalg.qr(M)
  \<close>
\<close>

definition uniform_draw :: "'g numlib \<Rightarrow> nat \<Rightarrow> real list \<times> 'g" where
  "uniform_draw np dimension = rng_random np (default_rng np 42) dimension"

definition initial_state :: "'g numlib \<Rightarrow> nat \<Rightarrow> real list" where
  "initial_state np dimension = normalize_vec (fst (uniform_draw np dimension))"

definition transform_matrix :: "'g numlib \<Rightarrow> nat \<Rightarrow> real list list" where
  "transform_matrix np dimension =
     (let rng = snd (uniform_draw np dimension);
          M = fst (rng_standard_normal np rng (dimension, dimension))
      in fst (linalg_qr np M))"

definition recurrence_simulation :: "'g numlib \<Rightarrow> nat \<Rightarrow> nat \<Rightarrow> real \<Rightarrow> py_error + result" where
  "recurrence_simulation np dimension steps epsilon =
     (let s0 = initial_state np dimension;
          Q = transform_matrix np dimension;
          state = s0;
          distances = []
      in simulation_loop Q s0 epsilon [1..<steps + 1] state distances)"

subsection \<open>What the library guarantees\<close>

definition orthonormal_rows :: "real list list \<Rightarrow> bool" where
  "orthonormal_rows Q =
     (\<forall>i < length Q. \<forall>j < length Q. dot (Q ! i) (Q ! j) = (if i = j then 1 else 0))"

text \<open>
  Modelled from the spec: NumPy itself is missing from the sources. Section 4.2 of the
  specification and the comment \<^verbatim>\<open>orthonormal rows\<close> of the script state what the
  library returns: \<^verbatim>\<open>rng.random(dim)\<close> is a vector of \<^verbatim>\<open>dim\<close> values in \<open>[0, 1)\<close>,
  and the factor \<open>Q\<close> of the QR decomposition of a square matrix of size \<^verbatim>\<open>dim\<close> is a
  square matrix of that size with orthonormal rows.
\<close>

definition numpy_contract :: "'g numlib \<Rightarrow> nat \<Rightarrow> bool" where
  "numpy_contract np dimension =
     (let u = fst (uniform_draw np dimension); Q = transform_matrix np dimension
      in length u = dimension \<and> (\<forall>x \<in> set u. 0 \<le> x \<and> x < 1)
         \<and> length Q = dimension \<and> (\<forall>row \<in> set Q. length row = dimension)
         \<and> orthonormal_rows Q)"

subsection \<open>The trajectory, as the specification describes it\<close>

text \<open>
  Section 4.3 (stepper): the matrix-vector product, then normalised. Section 4.4: the
  state after \<open>k\<close> steps is the stepper applied \<open>k\<close> times to the initial state, and the
  distance monitored at step \<open>k\<close> is its Euclidean distance to the initial state.
\<close>

definition stepper :: "real list list \<Rightarrow> real list \<Rightarrow> real list" where
  "stepper Q s = normalize_vec (map (\<lambda>row. dot row s) Q)"

definition state_at :: "real list list \<Rightarrow> real list \<Rightarrow> nat \<Rightarrow> real list" where
  "state_at Q s0 k = (stepper Q ^^ k) s0"

definition distance_at :: "real list list \<Rightarrow> real list \<Rightarrow> nat \<Rightarrow> real" where
  "distance_at Q s0 k = linalg_norm (map2 (-) (state_at Q s0 k) s0)"

definition run_distance :: "'g numlib \<Rightarrow> nat \<Rightarrow> nat \<Rightarrow> real" where
  "run_distance np dimension k =
     distance_at (transform_matrix np dimension) (initial_state np dimension) k"

text \<open>
  The states a run goes through: the initial state, and every state \<open>evolve_state\<close>
  returns from one of them.
\<close>

inductive reachable :: "'g numlib \<Rightarrow> nat \<Rightarrow> real list \<Rightarrow> bool" for np dimension where
  reachable_init: "reachable np dimension (initial_state np dimension)"
| reachable_step:
    "reachable np dimension s \<Longrightarrow> evolve_state s (transform_matrix np dimension) = Inr s'
      \<Longrightarrow> reachable np dimension s'"

text \<open>
  The distance the loop measures \<open>j\<close> steps after it stands at state \<open>st\<close>; with the
  initial state for \<open>st\<close> this is \<open>distance_at\<close>.
\<close>

definition later_distance :: "real list list \<Rightarrow> real list \<Rightarrow> real list \<Rightarrow> nat \<Rightarrow> real" where
  "later_distance Q s0 st j = linalg_norm (map2 (-) ((stepper Q ^^ j) st) s0)"

subsection \<open>Two small library instances\<close>

text \<open>
  A library that answers for dimension 2 only: the uniform draw \<open>(1/4, 3/4)\<close>, the normal
  draw \<open>((0, 2), (3, 1))\<close> and its QR factors, the swap matrix and \<open>((3, 1), (0, 2))\<close>.
  The generator state counts the draws.
\<close>

definition swap_numpy :: "nat numlib" where
  "swap_numpy =
     \<lparr> default_rng = (\<lambda>seed. 0),
       rng_random = (\<lambda>g n. ([1 / 4, 3 / 4], Suc g)),
       rng_standard_normal = (\<lambda>g shape. ([[0, 2], [3, 1]], Suc g)),
       linalg_qr = (\<lambda>M. ([[0, 1], [1, 0]], [[3, 1], [0, 2]])) \<rparr>"

text \<open>
  A second instance, for dimension 3: the uniform draw \<open>(1/2, 0, 0)\<close> and an orthonormal
  matrix that turns the first two coordinates and flips the third (its own \<open>Q\<close> factor,
  with the identity for \<open>R\<close>).
\<close>

definition turn_numpy :: "nat numlib" where
  "turn_numpy =
     \<lparr> default_rng = (\<lambda>seed. 0),
       rng_random = (\<lambda>g n. ([1 / 2, 0, 0], Suc g)),
       rng_standard_normal = (\<lambda>g shape. ([[3 / 5, - 4 / 5, 0], [4 / 5, 3 / 5, 0], [0, 0, - 1]], Suc g)),
       linalg_qr = (\<lambda>M. ([[3 / 5, - 4 / 5, 0], [4 / 5, 3 / 5, 0], [0, 0, - 1]],
                          [[1, 0, 0], [0, 1, 0], [0, 0, 1]])) \<rparr>"

subsection \<open>Facts about normalize\<close>

lemma clip_floor_pos: "0 < clip_floor"
  by (simp add: clip_floor_def)

lemma np_clip_length: "length (np_clip v lo) = length v"
  by (simp add: np_clip_def)

lemma np_clip_ge: "x \<in> set (np_clip v lo) \<Longrightarrow> lo \<le> x"
  by (auto simp: np_clip_def)

lemma sum_list_ge_length:
  fixes c :: "real list"
  shows "(\<And>x. x \<in> set c \<Longrightarrow> lo \<le> x) \<Longrightarrow> real (length c) * lo \<le> sum_list c"
proof (induction c)
  case Nil
  show ?case by simp
next
  case (Cons a c)
  have "lo \<le> a" using Cons.prems by simp
  moreover have "real (length c) * lo \<le> sum_list c"
    using Cons.IH Cons.prems by simp
  ultimately show ?case by (simp add: algebra_simps)
qed

lemma sum_list_le_length:
  fixes c :: "real list"
  shows "(\<And>x. x \<in> set c \<Longrightarrow> x \<le> hi) \<Longrightarrow> sum_list c \<le> real (length c) * hi"
proof (induction c)
  case Nil
  show ?case by simp
next
  case (Cons a c)
  have "a \<le> hi" using Cons.prems by simp
  moreover have "sum_list c \<le> real (length c) * hi"
    using Cons.IH Cons.prems by simp
  ultimately show ?case by (simp add: algebra_simps)
qed

lemma clip_sum_pos:
  assumes "v \<noteq> []"
  shows "0 < sum_list (np_clip v clip_floor)"
proof -
  have "real (length (np_clip v clip_floor)) * clip_floor \<le> sum_list (np_clip v clip_floor)"
    by (rule sum_list_ge_length) (rule np_clip_ge)
  moreover have "0 < real (length (np_clip v clip_floor)) * clip_floor"
    using assms clip_floor_pos by (simp add: np_clip_length)
  ultimately show ?thesis by linarith
qed

lemma sum_list_map_divide:
  fixes c :: "real list"
  shows "sum_list (map (\<lambda>x. x / s) c) = sum_list c / s"
  by (induction c) (simp_all add: add_divide_distrib)

lemma normalize_vec_length: "length (normalize_vec v) = length v"
  by (simp add: normalize_vec_def Let_def np_clip_length)

lemma normalize_vec_sum:
  assumes "v \<noteq> []"
  shows "sum_list (normalize_vec v) = 1"
  using clip_sum_pos [OF assms]
  by (simp add: normalize_vec_def Let_def sum_list_map_divide)

lemma normalize_vec_entry:
  assumes "y \<in> set (normalize_vec v)"
  shows "clip_floor / sum_list (np_clip v clip_floor) \<le> y"
proof -
  from assms obtain x where x: "x \<in> set (np_clip v clip_floor)"
    and y: "y = x / sum_list (np_clip v clip_floor)"
    by (auto simp: normalize_vec_def Let_def)
  then have ne: "v \<noteq> []" by (auto simp: np_clip_def)
  have "clip_floor \<le> x" using x by (rule np_clip_ge)
  then show ?thesis
    unfolding y using clip_sum_pos [OF ne] by (simp add: divide_right_mono)
qed

lemma normalize_vec_Nil: "normalize_vec [] = []"
  by (simp add: normalize_vec_def np_clip_def)

lemma member_le_sum_list_real:
  fixes xs :: "real list"
  shows "(\<And>y. y \<in> set xs \<Longrightarrow> 0 \<le> y) \<Longrightarrow> x \<in> set xs \<Longrightarrow> x \<le> sum_list xs"
proof (induction xs)
  case Nil
  then show ?case by simp
next
  case (Cons a xs)
  have a: "0 \<le> a" using Cons.prems(1) by simp
  have rest: "0 \<le> sum_list xs" using Cons.prems(1) by (simp add: sum_list_nonneg)
  show ?case
  proof (cases "x = a")
    case True
    then show ?thesis using rest by simp
  next
    case False
    then have "x \<in> set xs" using Cons.prems(2) by simp
    then have "x \<le> sum_list xs" using Cons.IH Cons.prems(1) by simp
    then show ?thesis using a by simp
  qed
qed





subsection \<open>Facts about normalize with overflow\<close>






lemma normalize_f64_exact:
  "sum_list (np_clip v clip_floor) < float64_overflow \<Longrightarrow> normalize_f64 v = normalize_vec v"
  by (simp add: normalize_f64_def normalize_vec_def np_sum_def Let_def)








subsection \<open>Facts about the loop\<close>

lemma evolve_state_stepper:
  assumes "\<forall>row \<in> set Q. length row = length s"
  shows "evolve_state s Q = Inr (stepper Q s)"
  using assms by (simp add: evolve_state_def matmul_vec_def stepper_def)

lemma stepper_length: "length (stepper Q s) = length Q"
  by (simp add: stepper_def normalize_vec_length)

lemma np_subtract_same:
  "length a = length b \<Longrightarrow> np_subtract a b = Inr (map2 (-) a b)"
  by (simp add: np_subtract_def)

lemma linalg_norm_nonneg: "0 \<le> linalg_norm x"
proof -
  have "0 \<le> sum_list (map (\<lambda>a. a * a) x)"
    by (rule sum_list_nonneg) auto
  then show ?thesis by (simp add: linalg_norm_def)
qed

lemma later_distance_shift:
  "later_distance Q s0 (stepper Q st) j = later_distance Q s0 st (Suc j)"
  by (simp add: later_distance_def funpow_swap1)

lemma map_upt_shift:
  "map f [Suc 0..<Suc (Suc n)] = f (Suc 0) # map (\<lambda>j. f (Suc j)) [Suc 0..<Suc n]"
proof -
  have "[Suc 0..<Suc (Suc n)] = Suc 0 # map Suc [Suc 0..<Suc n]"
    by (simp add: upt_conv_Cons map_Suc_upt del: upt_Suc)
  then show ?thesis by (simp add: comp_def del: upt_Suc)
qed

lemma simulation_loop_step:
  assumes "length Q = m" and "\<forall>row \<in> set Q. length row = m"
    and "length s0 = m" and "length st = m"
  shows "simulation_loop Q s0 epsilon (t # ts) st ds =
     (if later_distance Q s0 st 1 < epsilon
      then Inr (Some t, later_distance Q s0 st 1, ds @ [later_distance Q s0 st 1])
      else simulation_loop Q s0 epsilon ts (stepper Q st) (ds @ [later_distance Q s0 st 1]))"
proof -
  have e: "evolve_state st Q = Inr (stepper Q st)"
    using assms by (intro evolve_state_stepper) simp
  have "length (stepper Q st) = length s0"
    using assms by (simp add: stepper_length)
  then have d: "np_subtract (stepper Q st) s0 = Inr (map2 (-) (stepper Q st) s0)"
    by (rule np_subtract_same)
  show ?thesis by (simp add: e d Let_def later_distance_def)
qed

lemma simulation_loop_exhausted:
  assumes "length Q = m" and "\<forall>row \<in> set Q. length row = m"
    and "length s0 = m" and "length st = m"
    and "\<forall>j. 1 \<le> j \<and> j \<le> length ts \<longrightarrow> \<not> later_distance Q s0 st j < epsilon"
  shows "simulation_loop Q s0 epsilon ts st ds =
     (if ds @ map (later_distance Q s0 st) [1..<Suc (length ts)] = [] then Inl IndexError
      else Inr (None, last (ds @ map (later_distance Q s0 st) [1..<Suc (length ts)]),
                ds @ map (later_distance Q s0 st) [1..<Suc (length ts)]))"
  using assms(4,5)
proof (induction ts arbitrary: st ds)
  case Nil
  show ?case by (cases ds) simp_all
next
  case (Cons t ts)
  have far: "\<not> later_distance Q s0 st 1 < epsilon"
    using Cons.prems(2) by simp
  have len: "length (stepper Q st) = m"
    using assms(1) by (simp add: stepper_length)
  have rest: "\<forall>j. 1 \<le> j \<and> j \<le> length ts \<longrightarrow> \<not> later_distance Q s0 (stepper Q st) j < epsilon"
    using Cons.prems(2) by (simp add: later_distance_shift)
  have hist: "(ds @ [later_distance Q s0 st 1])
        @ map (later_distance Q s0 (stepper Q st)) [1..<Suc (length ts)]
      = ds @ map (later_distance Q s0 st) [1..<Suc (length (t # ts))]"
    using map_upt_shift [of "later_distance Q s0 st" "length ts"]
    by (simp add: later_distance_shift del: upt_Suc)
  have "simulation_loop Q s0 epsilon (t # ts) st ds
      = simulation_loop Q s0 epsilon ts (stepper Q st) (ds @ [later_distance Q s0 st 1])"
    using simulation_loop_step [OF assms(1,2,3) Cons.prems(1)] far by simp
  also have "\<dots> =
     (if (ds @ [later_distance Q s0 st 1])
             @ map (later_distance Q s0 (stepper Q st)) [1..<Suc (length ts)] = []
      then Inl IndexError
      else Inr (None, last ((ds @ [later_distance Q s0 st 1])
             @ map (later_distance Q s0 (stepper Q st)) [1..<Suc (length ts)]),
                     (ds @ [later_distance Q s0 st 1])
             @ map (later_distance Q s0 (stepper Q st)) [1..<Suc (length ts)]))"
    by (rule Cons.IH [OF len rest])
  finally show ?case unfolding hist .
qed

lemma simulation_loop_success:
  assumes "length Q = m" and "\<forall>row \<in> set Q. length row = m"
    and "length s0 = m" and "length st = m"
    and "j < length ts"
    and "later_distance Q s0 st (Suc j) < epsilon"
    and "\<forall>i. 1 \<le> i \<and> i \<le> j \<longrightarrow> \<not> later_distance Q s0 st i < epsilon"
  shows "simulation_loop Q s0 epsilon ts st ds =
     Inr (Some (ts ! j), later_distance Q s0 st (Suc j),
          ds @ map (later_distance Q s0 st) [1..<Suc (Suc j)])"
  using assms(4,5,6,7)
proof (induction ts arbitrary: st ds j)
  case Nil
  then show ?case by simp
next
  case (Cons t ts)
  show ?case
  proof (cases j)
    case 0
    then show ?thesis
      using simulation_loop_step [OF assms(1,2,3) Cons.prems(1)] Cons.prems(3) by simp
  next
    case (Suc k)
    have far: "\<not> later_distance Q s0 st 1 < epsilon"
      using Cons.prems(4) Suc by simp
    have len: "length (stepper Q st) = m"
      using assms(1) by (simp add: stepper_length)
    have k: "k < length ts" using Cons.prems(2) Suc by simp
    have near: "later_distance Q s0 (stepper Q st) (Suc k) < epsilon"
      using Cons.prems(3) Suc by (simp add: later_distance_shift)
    have rest: "\<forall>i. 1 \<le> i \<and> i \<le> k \<longrightarrow> \<not> later_distance Q s0 (stepper Q st) i < epsilon"
      using Cons.prems(4) Suc by (simp add: later_distance_shift)
    have hist: "(ds @ [later_distance Q s0 st 1])
          @ map (later_distance Q s0 (stepper Q st)) [1..<Suc (Suc k)]
        = ds @ map (later_distance Q s0 st) [1..<Suc (Suc j)]"
      using map_upt_shift [of "later_distance Q s0 st" "Suc k"] Suc
      by (simp add: later_distance_shift del: upt_Suc)
    have "simulation_loop Q s0 epsilon (t # ts) st ds
        = simulation_loop Q s0 epsilon ts (stepper Q st) (ds @ [later_distance Q s0 st 1])"
      using simulation_loop_step [OF assms(1,2,3) Cons.prems(1)] far by simp
    also have "\<dots> = Inr (Some (ts ! k), later_distance Q s0 (stepper Q st) (Suc k),
        (ds @ [later_distance Q s0 st 1])
          @ map (later_distance Q s0 (stepper Q st)) [1..<Suc (Suc k)])"
      by (rule Cons.IH [OF len k near rest])
    finally show ?thesis
      unfolding hist using Suc by (simp add: later_distance_shift)
  qed
qed

subsection \<open>Facts about the driver\<close>

lemma simulation_loop_result:
  "simulation_loop Q s0 epsilon ts st ds = Inr (r, x, h) \<Longrightarrow>
     h \<noteq> [] \<and> x = last h \<and>
     (case r of
        None \<Rightarrow> length h = length ds + length ts
      | Some t \<Rightarrow> (\<exists>j < length ts. t = ts ! j \<and> length h = length ds + Suc j))"
proof (induction ts arbitrary: st ds)
  case Nil
  then show ?case by (cases ds) auto
next
  case (Cons t ts)
  from Cons.prems obtain st' diff where
    run: "(if linalg_norm diff < epsilon
           then Inr (Some t, linalg_norm diff, ds @ [linalg_norm diff])
           else simulation_loop Q s0 epsilon ts st' (ds @ [linalg_norm diff])) = Inr (r, x, h)"
    by (auto simp: Let_def split: sum.splits)
  show ?case
  proof (cases "linalg_norm diff < epsilon")
    case True
    then show ?thesis using run by auto
  next
    case False
    then have "simulation_loop Q s0 epsilon ts st' (ds @ [linalg_norm diff]) = Inr (r, x, h)"
      using run by simp
    from Cons.IH [OF this] show ?thesis
      by (cases r) auto
  qed
qed

lemma contract_shapes:
  assumes "numpy_contract np dimension"
  shows "length (transform_matrix np dimension) = dimension"
    and "\<forall>row \<in> set (transform_matrix np dimension). length row = dimension"
    and "length (initial_state np dimension) = dimension"
  using assms by (simp_all add: numpy_contract_def Let_def initial_state_def normalize_vec_length)

lemma recurrence_simulation_loop:
  "recurrence_simulation np dimension steps epsilon =
     simulation_loop (transform_matrix np dimension) (initial_state np dimension) epsilon
       [1..<Suc steps] (initial_state np dimension) []"
  by (simp add: recurrence_simulation_def Let_def)

lemma later_distance_run:
  "later_distance (transform_matrix np dimension) (initial_state np dimension)
     (initial_state np dimension) = run_distance np dimension"
  by (rule ext) (simp add: later_distance_def run_distance_def distance_at_def state_at_def)

lemma driver_exhausted:
  assumes c: "numpy_contract np dimension" and s: "1 \<le> steps"
    and far: "\<forall>j. 1 \<le> j \<and> j \<le> steps \<longrightarrow> \<not> run_distance np dimension j < epsilon"
  shows "recurrence_simulation np dimension steps epsilon =
     Inr (None, run_distance np dimension steps, map (run_distance np dimension) [1..<Suc steps])"
proof -
  define H where "H = map (run_distance np dimension) [1..<Suc steps]"
  have l: "last H = run_distance np dimension steps"
    using s by (simp add: H_def last_map)
  have ne: "H \<noteq> []" using s by (simp add: H_def)
  have far': "\<forall>j. 1 \<le> j \<and> j \<le> length [1..<Suc steps] \<longrightarrow>
      \<not> later_distance (transform_matrix np dimension) (initial_state np dimension)
           (initial_state np dimension) j < epsilon"
    using far by (simp add: later_distance_run)
  have "recurrence_simulation np dimension steps epsilon =
     (if [] @ H = [] then Inl IndexError else Inr (None, last ([] @ H), [] @ H))"
    unfolding recurrence_simulation_loop H_def
    using simulation_loop_exhausted
      [OF contract_shapes [OF c] contract_shapes(3) [OF c] far', of "[]"]
    by (simp add: later_distance_run del: upt_Suc)
  then show ?thesis using ne l by (simp add: H_def del: upt_Suc)
qed

lemma driver_success:
  assumes c: "numpy_contract np dimension"
    and t: "1 \<le> t" "t \<le> steps"
    and near: "run_distance np dimension t < epsilon"
    and far: "\<forall>j. 1 \<le> j \<and> j < t \<longrightarrow> \<not> run_distance np dimension j < epsilon"
  shows "recurrence_simulation np dimension steps epsilon =
     Inr (Some t, run_distance np dimension t, map (run_distance np dimension) [1..<Suc t])"
proof -
  obtain k where k: "t = Suc k" using t(1) by (cases t) auto
  have "recurrence_simulation np dimension steps epsilon =
     Inr (Some ([1..<Suc steps] ! k), run_distance np dimension (Suc k),
          [] @ map (run_distance np dimension) [1..<Suc (Suc k)])"
    unfolding recurrence_simulation_loop later_distance_run [symmetric]
    using t near far k
    by (intro simulation_loop_success [OF contract_shapes [OF c] contract_shapes(3) [OF c]])
       (auto simp: later_distance_run)
  moreover have "[1..<Suc steps] ! k = t" using t k by (simp add: nth_upt del: upt_Suc)
  ultimately show ?thesis using k by simp
qed

lemma first_hit:
  fixes P :: "nat \<Rightarrow> bool"
  shows "1 \<le> j \<Longrightarrow> j \<le> n \<Longrightarrow> P j \<Longrightarrow>
    \<exists>t. 1 \<le> t \<and> t \<le> n \<and> P t \<and> (\<forall>i. 1 \<le> i \<and> i < t \<longrightarrow> \<not> P i)"
proof (induction j rule: less_induct)
  case (less j)
  show ?case
  proof (cases "\<exists>i. 1 \<le> i \<and> i < j \<and> P i")
    case True
    then obtain i where i: "1 \<le> i" "i < j" "P i" by blast
    have "i \<le> n" using i(2) less.prems(2) by simp
    then show ?thesis using less.IH [OF i(2) i(1) _ i(3)] by blast
  next
    case False
    then have "\<forall>i. 1 \<le> i \<and> i < j \<longrightarrow> \<not> P i" by blast
    then show ?thesis using less.prems by blast
  qed
qed

lemma driver_cases:
  assumes c: "numpy_contract np dimension" and s: "1 \<le> steps"
  shows "(\<exists>t. 1 \<le> t \<and> t \<le> steps \<and> run_distance np dimension t < epsilon
            \<and> (\<forall>j. 1 \<le> j \<and> j < t \<longrightarrow> \<not> run_distance np dimension j < epsilon)
            \<and> recurrence_simulation np dimension steps epsilon =
                Inr (Some t, run_distance np dimension t,
                     map (run_distance np dimension) [1..<Suc t]))
       \<or> ((\<forall>j. 1 \<le> j \<and> j \<le> steps \<longrightarrow> \<not> run_distance np dimension j < epsilon)
            \<and> recurrence_simulation np dimension steps epsilon =
                Inr (None, run_distance np dimension steps,
                     map (run_distance np dimension) [1..<Suc steps]))"
proof (cases "\<exists>j. 1 \<le> j \<and> j \<le> steps \<and> run_distance np dimension j < epsilon")
  case True
  then obtain j where "1 \<le> j" "j \<le> steps" "run_distance np dimension j < epsilon" by blast
  from first_hit [of j steps "\<lambda>j. run_distance np dimension j < epsilon", OF this]
  obtain t where t: "1 \<le> t" "t \<le> steps" "run_distance np dimension t < epsilon"
    "\<forall>i. 1 \<le> i \<and> i < t \<longrightarrow> \<not> run_distance np dimension i < epsilon" by blast
  show ?thesis using t driver_success [OF c t] by blast
next
  case False
  then have far: "\<forall>j. 1 \<le> j \<and> j \<le> steps \<longrightarrow> \<not> run_distance np dimension j < epsilon"
    by blast
  show ?thesis using far driver_exhausted [OF c s far] by blast
qed

subsection \<open>Facts about the reachable states\<close>

lemma run_distance_nonneg: "0 \<le> run_distance np dimension k"
  by (simp add: run_distance_def distance_at_def linalg_norm_nonneg)

lemma normalize_vec_floor:
  assumes ne: "v \<noteq> []" and le: "\<forall>x \<in> set v. x \<le> 1"
  shows "\<forall>y \<in> set (normalize_vec v). clip_floor / real (length v) \<le> y"
proof
  fix y assume y: "y \<in> set (normalize_vec v)"
  define S where "S = sum_list (np_clip v clip_floor)"
  have "\<And>x. x \<in> set (np_clip v clip_floor) \<Longrightarrow> x \<le> 1"
    using le by (auto simp: np_clip_def clip_floor_def)
  then have "S \<le> real (length (np_clip v clip_floor)) * 1"
    unfolding S_def by (rule sum_list_le_length)
  then have Sn: "S \<le> real (length v)" by (simp add: np_clip_length)
  have Spos: "0 < S" unfolding S_def by (rule clip_sum_pos [OF ne])
  have npos: "0 < real (length v)" using ne by simp
  have "clip_floor / real (length v) \<le> clip_floor / S"
    using Sn Spos npos clip_floor_pos by (intro divide_left_mono) simp_all
  also have "\<dots> \<le> y" using normalize_vec_entry [OF y] by (simp add: S_def)
  finally show "clip_floor / real (length v) \<le> y" .
qed

lemma dot_le_sum:
  assumes "length r = length s" and "\<forall>a \<in> set r. a \<le> 1" and "\<forall>x \<in> set s. 0 \<le> x"
  shows "dot r s \<le> sum_list s"
  using assms
proof (induction r s rule: list_induct2)
  case Nil
  show ?case by (simp add: dot_def)
next
  case (Cons a r x s)
  have "a * x \<le> 1 * x" using Cons.prems by (intro mult_right_mono) simp_all
  moreover have "dot r s \<le> sum_list s" using Cons.IH Cons.prems by simp
  ultimately show ?case by (simp add: dot_def)
qed

lemma unit_row_entries:
  assumes "dot r r = 1" and "a \<in> set r"
  shows "a \<le> 1"
proof (rule ccontr)
  assume "\<not> a \<le> 1"
  then have big: "1 < a" by simp
  have sq: "dot r r = sum_list (map (\<lambda>a. a * a) r)"
    by (simp add: dot_def zip_same_conv_map comp_def)
  have "a * a \<le> sum_list (map (\<lambda>a. a * a) r)"
    using assms(2) by (intro member_le_sum_list_real) auto
  then have "a * a \<le> 1" using sq assms(1) by simp
  moreover have "1 * 1 < a * a" using big by (intro mult_strict_mono) simp_all
  ultimately show False by simp
qed

lemma orthonormal_row_entries:
  assumes "orthonormal_rows Q" and "row \<in> set Q" and "a \<in> set row"
  shows "a \<le> 1"
proof -
  from assms(2) obtain i where i: "i < length Q" "Q ! i = row"
    by (auto simp: in_set_conv_nth)
  then have "dot row row = 1" using assms(1) by (auto simp: orthonormal_rows_def)
  then show ?thesis using assms(3) by (rule unit_row_entries)
qed

lemma initial_state_invariant:
  assumes c: "numpy_contract np dimension" and d: "1 \<le> dimension"
  shows "length (initial_state np dimension) = dimension"
    and "\<forall>x \<in> set (initial_state np dimension). clip_floor / real dimension \<le> x"
    and "sum_list (initial_state np dimension) = 1"
proof -
  define u where "u = fst (uniform_draw np dimension)"
  have len: "length u = dimension" and le: "\<forall>x \<in> set u. x \<le> 1"
    using c by (auto simp: numpy_contract_def Let_def u_def less_imp_le)
  have ne: "u \<noteq> []" using len d by auto
  show "length (initial_state np dimension) = dimension"
    by (rule contract_shapes(3) [OF c])
  show "\<forall>x \<in> set (initial_state np dimension). clip_floor / real dimension \<le> x"
    using normalize_vec_floor [OF ne le] by (simp add: initial_state_def u_def [symmetric] len)
  show "sum_list (initial_state np dimension) = 1"
    using normalize_vec_sum [OF ne] by (simp add: initial_state_def u_def)
qed

lemma evolve_state_invariant:
  assumes c: "numpy_contract np dimension" and d: "1 \<le> dimension"
    and len: "length s = dimension" and nonneg: "\<forall>x \<in> set s. 0 \<le> x"
    and one: "sum_list s = 1"
    and ev: "evolve_state s (transform_matrix np dimension) = Inr s'"
  shows "length s' = dimension"
    and "\<forall>x \<in> set s'. clip_floor / real dimension \<le> x"
    and "sum_list s' = 1"
proof -
  define Q where "Q = transform_matrix np dimension"
  define v where "v = map (\<lambda>row. dot row s) Q"
  have Qlen: "length Q = dimension" and rows: "\<forall>row \<in> set Q. length row = dimension"
    and orth: "orthonormal_rows Q"
    using c by (simp_all add: numpy_contract_def Let_def Q_def)
  have "evolve_state s Q = Inr (stepper Q s)"
    using rows len by (intro evolve_state_stepper) simp
  then have s': "s' = normalize_vec v"
    using ev by (simp add: Q_def stepper_def v_def)
  have vlen: "length v = dimension" by (simp add: v_def Qlen)
  have ne: "v \<noteq> []" using vlen d by auto
  have le: "\<forall>x \<in> set v. x \<le> 1"
  proof
    fix x assume "x \<in> set v"
    then obtain row where row: "row \<in> set Q" and x: "x = dot row s"
      by (auto simp: v_def)
    have "dot row s \<le> sum_list s"
      using rows row len nonneg orthonormal_row_entries [OF orth row]
      by (intro dot_le_sum) auto
    then show "x \<le> 1" using x one by simp
  qed
  show "length s' = dimension" by (simp add: s' normalize_vec_length vlen)
  show "\<forall>x \<in> set s'. clip_floor / real dimension \<le> x"
    using normalize_vec_floor [OF ne le] by (simp add: s' vlen)
  show "sum_list s' = 1" using normalize_vec_sum [OF ne] by (simp add: s')
qed

lemma floor_over_dimension_pos: "1 \<le> dimension \<Longrightarrow> 0 < clip_floor / real dimension"
  using clip_floor_pos by simp

lemma state_at_reachable:
  assumes c: "numpy_contract np dimension"
  shows "reachable np dimension
     (state_at (transform_matrix np dimension) (initial_state np dimension) k)
   \<and> length (state_at (transform_matrix np dimension) (initial_state np dimension) k) = dimension"
proof (induction k)
  case 0
  show ?case using contract_shapes(3) [OF c] by (simp add: state_at_def reachable_init)
next
  case (Suc k)
  define st where "st = state_at (transform_matrix np dimension) (initial_state np dimension) k"
  have st: "reachable np dimension st" "length st = dimension"
    using Suc.IH by (simp_all add: st_def)
  have ev: "evolve_state st (transform_matrix np dimension)
      = Inr (stepper (transform_matrix np dimension) st)"
    using contract_shapes(2) [OF c] st(2) by (intro evolve_state_stepper) simp
  have nxt: "state_at (transform_matrix np dimension) (initial_state np dimension) (Suc k)
      = stepper (transform_matrix np dimension) st"
    by (simp add: state_at_def st_def)
  show ?case
    unfolding nxt using reachable_step [OF st(1) ev] contract_shapes(1) [OF c]
    by (simp add: stepper_length)
qed

text \<open>
  No sum overflows in the driver: the vector \<open>evolve_state\<close> normalises has entries of at
  most 1, so for every dimension in the float64 range \<open>normalize_f64\<close> and
  \<open>normalize_vec\<close> agree on it.
\<close>

lemma evolve_state_no_overflow:
  assumes c: "numpy_contract np dimension" and d: "1 \<le> dimension"
    and small: "real dimension < float64_overflow"
    and inv: "length s = dimension" "\<forall>x \<in> set s. 0 \<le> x" "sum_list s = 1"
  shows "normalize_f64 (map (\<lambda>row. dot row s) (transform_matrix np dimension))
       = normalize_vec (map (\<lambda>row. dot row s) (transform_matrix np dimension))"
proof (rule normalize_f64_exact)
  define Q where "Q = transform_matrix np dimension"
  define v where "v = map (\<lambda>row. dot row s) Q"
  have Qlen: "length Q = dimension" and rows: "\<forall>row \<in> set Q. length row = dimension"
    and orth: "orthonormal_rows Q"
    using c by (simp_all add: numpy_contract_def Let_def Q_def)
  have le: "\<And>x. x \<in> set (np_clip v clip_floor) \<Longrightarrow> x \<le> 1"
  proof -
    fix x assume "x \<in> set (np_clip v clip_floor)"
    then obtain row where row: "row \<in> set Q" and x: "x = max clip_floor (dot row s)"
      by (auto simp: v_def np_clip_def)
    have "dot row s \<le> sum_list s"
      using rows row inv orthonormal_row_entries [OF orth row]
      by (intro dot_le_sum) auto
    then show "x \<le> 1" using x inv(3) by (simp add: clip_floor_def)
  qed
  have "sum_list (np_clip v clip_floor) \<le> real (length (np_clip v clip_floor)) * 1"
    by (rule sum_list_le_length) (rule le)
  then have "sum_list (np_clip v clip_floor) \<le> real dimension"
    by (simp add: np_clip_length v_def Qlen)
  then show "sum_list (np_clip (map (\<lambda>row. dot row s) (transform_matrix np dimension)) clip_floor)
      < float64_overflow"
    using small by (simp add: v_def Q_def)
qed

subsection \<open>The two library instances, evaluated\<close>

lemma swap_initial: "initial_state swap_numpy 2 = [1 / 4, 3 / 4]"
  by (simp add: initial_state_def uniform_draw_def swap_numpy_def normalize_vec_def np_clip_def
      clip_floor_def)

lemma swap_transform: "transform_matrix swap_numpy 2 = [[0, 1], [1, 0]]"
  by (simp add: transform_matrix_def uniform_draw_def swap_numpy_def)

lemma swap_contract: "numpy_contract swap_numpy 2"
proof -
  have o: "orthonormal_rows [[0, 1], [1, 0]]"
    by (auto simp: orthonormal_rows_def dot_def less_Suc_eq numeral_2_eq_2)
  have u: "fst (uniform_draw swap_numpy 2) = [1 / 4, 3 / 4]"
    by (simp add: uniform_draw_def swap_numpy_def)
  show ?thesis
    unfolding numpy_contract_def Let_def swap_transform u using o by simp
qed

lemma state_at_steps:
  "state_at Q s0 1 = stepper Q s0"
  "state_at Q s0 2 = stepper Q (stepper Q s0)"
  "state_at Q s0 3 = stepper Q (stepper Q (stepper Q s0))"
  by (simp_all add: state_at_def numeral_2_eq_2 numeral_3_eq_3)

lemma swap_step_a: "stepper [[0, 1], [1, 0]] [1 / 4, 3 / 4] = [3 / 4, 1 / 4]"
  by (simp add: stepper_def dot_def normalize_vec_def np_clip_def clip_floor_def)

lemma swap_step_b: "stepper [[0, 1], [1, 0]] [3 / 4, 1 / 4] = [1 / 4, 3 / 4]"
  by (simp add: stepper_def dot_def normalize_vec_def np_clip_def clip_floor_def)

lemma swap_distance:
  "run_distance swap_numpy 2 (Suc 0) = sqrt (1 / 2)"
  "run_distance swap_numpy 2 2 = 0"
  "run_distance swap_numpy 2 3 = sqrt (1 / 2)"
proof -
  have h: "(1 / 2 :: real) * (1 / 2) + 1 / 2 * (1 / 2) = 1 / 2" by simp
  show "run_distance swap_numpy 2 (Suc 0) = sqrt (1 / 2)"
    unfolding One_nat_def [symmetric] run_distance_def distance_at_def state_at_steps swap_initial swap_transform
      swap_step_a swap_step_b linalg_norm_def
    using h by simp
  show "run_distance swap_numpy 2 2 = 0"
    unfolding run_distance_def distance_at_def state_at_steps swap_initial swap_transform
      swap_step_a swap_step_b linalg_norm_def
    by simp
  show "run_distance swap_numpy 2 3 = sqrt (1 / 2)"
    unfolding run_distance_def distance_at_def state_at_steps swap_initial swap_transform
      swap_step_a swap_step_b linalg_norm_def
    using h by simp
qed

lemma sqrt_half_far: "\<not> sqrt (1 / 2) < 1 / 1000"
proof -
  have "(1 / 1000 :: real) \<le> sqrt (1 / 2)"
    by (rule real_le_rsqrt) (simp add: power2_eq_square)
  then show ?thesis by simp
qed

lemma swap_history: "map (run_distance swap_numpy 2) [1..<Suc 2] = [sqrt (1 / 2), 0]"
proof -
  have "[1..<Suc 2] = [1, 2]" by (simp add: upt_rec)
  then show ?thesis by (simp add: swap_distance)
qed

lemma swap_history_3:
  "map (run_distance swap_numpy 2) [1..<Suc 3] = [sqrt (1 / 2), 0, sqrt (1 / 2)]"
proof -
  have "[1..<Suc 3] = [1, 2, 3]" by (simp add: upt_rec)
  then show ?thesis by (simp add: swap_distance)
qed

lemma swap_first_hit:
  "\<forall>j. 1 \<le> j \<and> j < 2 \<longrightarrow> \<not> run_distance swap_numpy 2 j < 1 / 1000"
proof (intro allI impI)
  fix j :: nat assume "1 \<le> j \<and> j < 2"
  then have "j = 1" by simp
  then show "\<not> run_distance swap_numpy 2 j < 1 / 1000"
    using sqrt_half_far by (simp add: swap_distance)
qed

lemma swap_run:
  "recurrence_simulation swap_numpy 2 3 (1 / 1000) = Inr (Some 2, 0, [sqrt (1 / 2), 0])"
proof -
  have "recurrence_simulation swap_numpy 2 3 (1 / 1000) =
      Inr (Some 2, run_distance swap_numpy 2 2, map (run_distance swap_numpy 2) [1..<Suc 2])"
    using swap_first_hit by (intro driver_success [OF swap_contract]) (simp_all add: swap_distance)
  then show ?thesis by (simp only: swap_history swap_distance)
qed

lemma swap_reachable: "reachable swap_numpy 2 [3 / 4, 1 / 4]"
proof -
  have "evolve_state (initial_state swap_numpy 2) (transform_matrix swap_numpy 2)
      = Inr [3 / 4, 1 / 4]"
    unfolding swap_initial swap_transform
    by (simp add: evolve_state_stepper swap_step_a)
  then show ?thesis by (rule reachable_step [OF reachable_init])
qed

lemma turn_transform:
  "transform_matrix turn_numpy 3 = [[3 / 5, - 4 / 5, 0], [4 / 5, 3 / 5, 0], [0, 0, - 1]]"
  by (simp add: transform_matrix_def uniform_draw_def turn_numpy_def)

lemma turn_contract: "numpy_contract turn_numpy 3"
proof -
  have o: "orthonormal_rows [[3 / 5, - 4 / 5, 0], [4 / 5, 3 / 5, 0], [0, 0, - 1]]"
    by (auto simp: orthonormal_rows_def dot_def less_Suc_eq numeral_3_eq_3)
  have u: "fst (uniform_draw turn_numpy 3) = [1 / 2, 0, 0]"
    by (simp add: uniform_draw_def turn_numpy_def)
  show ?thesis
    unfolding numpy_contract_def Let_def turn_transform u using o by simp
qed

lemma turn_initial:
  "initial_state turn_numpy 3 =
     [(1 / 2) / (1 / 2 + 2 * clip_floor), clip_floor / (1 / 2 + 2 * clip_floor),
      clip_floor / (1 / 2 + 2 * clip_floor)]"
  by (simp add: initial_state_def uniform_draw_def turn_numpy_def normalize_vec_def np_clip_def
      clip_floor_def)

text \<open>
  The floor of the reachable states is \<open>1e-15 / dim\<close>, not \<open>1e-15\<close> itself: in this run
  the product has a negative third entry, which is clamped to \<open>1e-15\<close> and then divided
  by a sum of about 1.4.
\<close>

lemma turn_below_floor:
  "reachable turn_numpy 3 (stepper (transform_matrix turn_numpy 3) (initial_state turn_numpy 3))
   \<and> stepper (transform_matrix turn_numpy 3) (initial_state turn_numpy 3) ! 2 < clip_floor"
proof -
  have "reachable turn_numpy 3
      (state_at (transform_matrix turn_numpy 3) (initial_state turn_numpy 3) 1)"
    using state_at_reachable [OF turn_contract, of 1] by simp
  then have r: "reachable turn_numpy 3
      (stepper (transform_matrix turn_numpy 3) (initial_state turn_numpy 3))"
    by (simp add: state_at_def)
  have "stepper (transform_matrix turn_numpy 3) (initial_state turn_numpy 3) ! 2 < clip_floor"
    unfolding turn_transform turn_initial
    by (simp add: stepper_def dot_def normalize_vec_def np_clip_def clip_floor_def)
  then show ?thesis using r by simp
qed

section \<open>The claims\<close>

text \<open>
  C1. Under the library's contract and with at least one step, the driver returns
  \<open>(t, d, history)\<close> exactly when \<open>t\<close> is the first step, among the first \<open>steps\<close>, at
  which the Euclidean distance from the stepped state to the initial state is below
  \<open>epsilon\<close>, \<open>d\<close> is that distance and the history holds the distances of steps 1 to
  \<open>t\<close>; and it returns \<open>(None, final distance, full history)\<close> exactly when no step
  among the first \<open>steps\<close> has a distance below \<open>epsilon\<close>.
\<close>

theorem driver_first_return:
  assumes "numpy_contract np dimension" and "1 \<le> steps"
  shows "(recurrence_simulation np dimension steps epsilon = Inr (Some t, x, h) \<longleftrightarrow>
            1 \<le> t \<and> t \<le> steps \<and> run_distance np dimension t < epsilon
            \<and> (\<forall>j. 1 \<le> j \<and> j < t \<longrightarrow> \<not> run_distance np dimension j < epsilon)
            \<and> x = run_distance np dimension t
            \<and> h = map (run_distance np dimension) [1..<Suc t])
       \<and> ((\<forall>j. 1 \<le> j \<and> j \<le> steps \<longrightarrow> \<not> run_distance np dimension j < epsilon) \<longleftrightarrow>
            recurrence_simulation np dimension steps epsilon =
              Inr (None, run_distance np dimension steps,
                   map (run_distance np dimension) [1..<Suc steps]))"
proof (rule conjI)
  show "recurrence_simulation np dimension steps epsilon = Inr (Some t, x, h) \<longleftrightarrow>
      1 \<le> t \<and> t \<le> steps \<and> run_distance np dimension t < epsilon
      \<and> (\<forall>j. 1 \<le> j \<and> j < t \<longrightarrow> \<not> run_distance np dimension j < epsilon)
      \<and> x = run_distance np dimension t
      \<and> h = map (run_distance np dimension) [1..<Suc t]"
  proof
    assume r: "recurrence_simulation np dimension steps epsilon = Inr (Some t, x, h)"
    from driver_cases [OF assms, of epsilon] r
    obtain t' where t': "1 \<le> t'" "t' \<le> steps" "run_distance np dimension t' < epsilon"
        "\<forall>j. 1 \<le> j \<and> j < t' \<longrightarrow> \<not> run_distance np dimension j < epsilon"
        "recurrence_simulation np dimension steps epsilon =
           Inr (Some t', run_distance np dimension t',
                map (run_distance np dimension) [1..<Suc t'])"
      by auto
    from r t'(5) have "t = t'" "x = run_distance np dimension t'"
      "h = map (run_distance np dimension) [1..<Suc t']" by (auto simp del: upt_Suc)
    then show "1 \<le> t \<and> t \<le> steps \<and> run_distance np dimension t < epsilon
        \<and> (\<forall>j. 1 \<le> j \<and> j < t \<longrightarrow> \<not> run_distance np dimension j < epsilon)
        \<and> x = run_distance np dimension t
        \<and> h = map (run_distance np dimension) [1..<Suc t]"
      using t'(1-4) by (simp del: upt_Suc)
  next
    assume "1 \<le> t \<and> t \<le> steps \<and> run_distance np dimension t < epsilon
        \<and> (\<forall>j. 1 \<le> j \<and> j < t \<longrightarrow> \<not> run_distance np dimension j < epsilon)
        \<and> x = run_distance np dimension t
        \<and> h = map (run_distance np dimension) [1..<Suc t]"
    then show "recurrence_simulation np dimension steps epsilon = Inr (Some t, x, h)"
      using driver_success [OF assms(1), of t steps epsilon] by (simp del: upt_Suc)
  qed
  show "(\<forall>j. 1 \<le> j \<and> j \<le> steps \<longrightarrow> \<not> run_distance np dimension j < epsilon) \<longleftrightarrow>
      recurrence_simulation np dimension steps epsilon =
        Inr (None, run_distance np dimension steps,
             map (run_distance np dimension) [1..<Suc steps])"
  proof
    assume "\<forall>j. 1 \<le> j \<and> j \<le> steps \<longrightarrow> \<not> run_distance np dimension j < epsilon"
    then show "recurrence_simulation np dimension steps epsilon =
        Inr (None, run_distance np dimension steps,
             map (run_distance np dimension) [1..<Suc steps])"
      by (rule driver_exhausted [OF assms])
  next
    assume r: "recurrence_simulation np dimension steps epsilon =
        Inr (None, run_distance np dimension steps,
             map (run_distance np dimension) [1..<Suc steps])"
    from driver_cases [OF assms, of epsilon] r
    show "\<forall>j. 1 \<le> j \<and> j \<le> steps \<longrightarrow> \<not> run_distance np dimension j < epsilon"
      by auto
  qed
qed

theorem driver_first_return_witness:
  "numpy_contract swap_numpy 2 \<and> (1::nat) \<le> 3
   \<and> recurrence_simulation swap_numpy 2 3 (1 / 1000) = Inr (Some 2, 0, [sqrt (1 / 2), 0])
   \<and> recurrence_simulation swap_numpy 2 3 0 \<noteq> Inr (Some 2, 0, [sqrt (1 / 2), 0])"
proof -
  have c: "numpy_contract swap_numpy 2" by (rule swap_contract)
  have s: "(1::nat) \<le> 3" by simp
  have h: "[sqrt (1 / 2), 0] = map (run_distance swap_numpy 2) [1..<Suc 2]"
    using swap_history by (simp del: upt_Suc)
  have a: "recurrence_simulation swap_numpy 2 3 (1 / 1000) = Inr (Some 2, 0, [sqrt (1 / 2), 0])"
    using driver_first_return [OF c s, of "1 / 1000" 2 0 "[sqrt (1 / 2), 0]"] swap_first_hit h
    by (simp add: swap_distance)
  have b: "recurrence_simulation swap_numpy 2 3 0 \<noteq> Inr (Some 2, 0, [sqrt (1 / 2), 0])"
    using driver_first_return [OF c s, of 0 2 0 "[sqrt (1 / 2), 0]"]
    by (simp add: swap_distance)
  show ?thesis using c s a b by simp
qed

text \<open>
  C2. Every reachable state, the initial one and every one the stepper returns, has
  \<open>dim\<close> entries, each at least the positive floor \<open>1e-15 / dim\<close> (so non-negative),
  and the entries sum to exactly 1; this for every run with \<open>dim\<close> at least 1, under
  the library's contract.
\<close>

theorem reachable_invariant:
  assumes c: "numpy_contract np dimension" and d: "1 \<le> dimension"
    and r: "reachable np dimension s"
  shows "length s = dimension
    \<and> (\<forall>x \<in> set s. clip_floor / real dimension \<le> x \<and> 0 \<le> x)
    \<and> 0 < clip_floor / real dimension
    \<and> sum_list s = 1"
  using r
proof (induction rule: reachable.induct)
  case reachable_init
  have "\<forall>x \<in> set (initial_state np dimension). 0 \<le> x"
    using initial_state_invariant(2) [OF c d] floor_over_dimension_pos [OF d]
    by (auto intro: order_trans less_imp_le)
  then show ?case
    using initial_state_invariant [OF c d] floor_over_dimension_pos [OF d] by simp
next
  case (reachable_step s s')
  have nonneg: "\<forall>x \<in> set s. 0 \<le> x" using reachable_step.IH by simp
  have len: "length s = dimension" and one: "sum_list s = 1"
    using reachable_step.IH by simp_all
  note inv = evolve_state_invariant [OF c d len nonneg one reachable_step.hyps(2)]
  have "\<forall>x \<in> set s'. 0 \<le> x"
    using inv(2) floor_over_dimension_pos [OF d] by (auto intro: order_trans less_imp_le)
  then show ?case using inv floor_over_dimension_pos [OF d] by simp
qed

theorem reachable_invariant_witness:
  "numpy_contract swap_numpy 2 \<and> reachable swap_numpy 2 [3 / 4, 1 / 4]
   \<and> clip_floor / 2 \<le> 1 / 4 \<and> 0 < clip_floor / 2 \<and> sum_list [3 / 4, 1 / 4 :: real] = 1"
proof -
  have d: "(1::nat) \<le> 2" by simp
  show ?thesis
    using reachable_invariant [OF swap_contract d swap_reachable] swap_contract swap_reachable
    by simp
qed







text \<open>
  C5. The claim that the driver never raises fails for a step budget of 0: the loop body
  never runs, \<^verbatim>\<open>distances\<close> stays empty, and \<^verbatim>\<open>distances[-1]\<close> raises IndexError,
  whatever the dimension, the threshold and the library.
\<close>

theorem zero_steps_index_error:
  "recurrence_simulation np dimension 0 epsilon = Inl IndexError"
  by (simp add: recurrence_simulation_def)

text \<open>
  C6. With \<open>epsilon = 0\<close> the driver always ends exhausted: under the library's
  contract and with at least one step it returns \<open>None\<close> for the step index, with the
  distance of the last step and the full history, since no distance is below 0.
\<close>

theorem epsilon_zero_exhausted:
  assumes "numpy_contract np dimension" and "1 \<le> steps"
  shows "recurrence_simulation np dimension steps 0 =
     Inr (None, run_distance np dimension steps, map (run_distance np dimension) [1..<Suc steps])"
  using driver_exhausted [OF assms, of 0] run_distance_nonneg [of np dimension]
  by (simp add: not_less del: upt_Suc)

theorem epsilon_zero_exhausted_witness:
  "numpy_contract swap_numpy 2 \<and> (1::nat) \<le> 3
   \<and> recurrence_simulation swap_numpy 2 3 0 =
       Inr (None, sqrt (1 / 2), [sqrt (1 / 2), 0, sqrt (1 / 2)])"
proof -
  have c: "numpy_contract swap_numpy 2" by (rule swap_contract)
  have s: "(1::nat) \<le> 3" by simp
  have "recurrence_simulation swap_numpy 2 3 0 =
     Inr (None, run_distance swap_numpy 2 3, map (run_distance swap_numpy 2) [1..<Suc 3])"
    using epsilon_zero_exhausted [OF c s] by (simp del: upt_Suc)
  then have "recurrence_simulation swap_numpy 2 3 0 =
     Inr (None, sqrt (1 / 2), [sqrt (1 / 2), 0, sqrt (1 / 2)])"
    by (simp only: swap_history_3 swap_distance)
  then show ?thesis using c s by simp
qed

text \<open>
  C7. The history the driver returns has one entry per executed step: its length is the
  returned step index on success and the step budget on exhaustion, and never exceeds
  the budget. Under the library's contract and with at least one step the driver does
  return.
\<close>

theorem history_length:
  "(recurrence_simulation np dimension steps epsilon = Inr (r, x, h) \<longrightarrow>
      length h = (case r of Some t \<Rightarrow> t | None \<Rightarrow> steps) \<and> length h \<le> steps)
   \<and> (numpy_contract np dimension \<and> 1 \<le> steps \<longrightarrow>
        (\<exists>r x h. recurrence_simulation np dimension steps epsilon = Inr (r, x, h)))"
proof (intro conjI impI)
  assume "recurrence_simulation np dimension steps epsilon = Inr (r, x, h)"
  then have loop: "simulation_loop (transform_matrix np dimension) (initial_state np dimension)
      epsilon [1..<Suc steps] (initial_state np dimension) [] = Inr (r, x, h)"
    by (simp only: recurrence_simulation_loop)
  show "length h = (case r of Some t \<Rightarrow> t | None \<Rightarrow> steps)"
    using simulation_loop_result [OF loop] by (cases r) (auto simp: nth_upt simp del: upt_Suc)
  show "length h \<le> steps"
    using simulation_loop_result [OF loop] by (cases r) (auto simp del: upt_Suc)
next
  assume "numpy_contract np dimension \<and> 1 \<le> steps"
  then show "\<exists>r x h. recurrence_simulation np dimension steps epsilon = Inr (r, x, h)"
    using driver_cases [of np dimension steps epsilon] by blast
qed

theorem history_length_witness:
  "recurrence_simulation swap_numpy 2 3 (1 / 1000) = Inr (Some 2, 0, [sqrt (1 / 2), 0])
   \<and> length [sqrt (1 / 2), 0 :: real] = 2 \<and> length [sqrt (1 / 2), 0 :: real] \<le> 3
   \<and> (\<exists>r x h. recurrence_simulation swap_numpy 2 3 (1 / 1000) = Inr (r, x, h))"
  using history_length [of swap_numpy 2 3 "1 / 1000" "Some 2" 0 "[sqrt (1 / 2), 0]"]
    swap_run swap_contract
  by simp

text \<open>
  C8 (as amended). \<open>normalize\<close> has no error path and keeps the length of its input.
  For every non-empty input the divisor, the sum of the clamped entries, is strictly
  positive. For the empty input the divisor is 0, no entry is divided, and the result is
  the empty vector.
\<close>

theorem normalize_divisor:
  "length (normalize_vec v) = length v
   \<and> (v \<noteq> [] \<longrightarrow> 0 < sum_list (np_clip v clip_floor))
   \<and> (v = [] \<longrightarrow> sum_list (np_clip v clip_floor) = 0 \<and> normalize_vec v = [])"
  using clip_sum_pos [of v]
  by (auto simp: normalize_vec_length normalize_vec_Nil np_clip_def)

theorem normalize_divisor_witness:
  "0 < sum_list (np_clip [0, - 1] clip_floor) \<and> length (normalize_vec [0, - 1]) = 2"
  using normalize_divisor [of "[0, - 1]"] by simp

text \<open>The divisor of the empty vector is not strictly positive.\<close>

theorem normalize_divisor_counterexample:
  "\<not> 0 < sum_list (np_clip [] clip_floor)"
  by (simp add: np_clip_def)

text \<open>
  C10. Whenever the driver returns, the returned distance is the last entry of the
  returned history; on success the step index \<open>t\<close> lies between 1 and \<open>steps\<close> and the
  history has exactly \<open>t\<close> entries.
\<close>

theorem result_relation:
  assumes "recurrence_simulation np dimension steps epsilon = Inr (r, x, h)"
  shows "h \<noteq> [] \<and> x = last h
    \<and> (\<forall>t. r = Some t \<longrightarrow> 1 \<le> t \<and> t \<le> steps \<and> length h = t)"
proof -
  have loop: "simulation_loop (transform_matrix np dimension) (initial_state np dimension)
      epsilon [1..<Suc steps] (initial_state np dimension) [] = Inr (r, x, h)"
    using assms by (simp only: recurrence_simulation_loop)
  show ?thesis
    using simulation_loop_result [OF loop] by (cases r) (auto simp: nth_upt simp del: upt_Suc)
qed

theorem result_relation_witness:
  "recurrence_simulation swap_numpy 2 3 (1 / 1000) = Inr (Some 2, 0, [sqrt (1 / 2), 0])
   \<and> (0::real) = last [sqrt (1 / 2), 0] \<and> (1::nat) \<le> 2 \<and> (2::nat) \<le> 3
   \<and> length [sqrt (1 / 2), 0 :: real] = 2"
  using result_relation [OF swap_run] swap_run by simp

end
